theory Spec2Isabelle
  imports Main
begin

unbundle bit_operations_syntax

section \<open>Data model of json.h\<close>

text \<open>
  The enumeration \<open>json_h_type\<close>, in the order of the source. The last four tags are the
  ones the source marks as ``only returned by json_h_next''.
\<close>

datatype json_h_type =
    JSON_H_NULL
  | JSON_H_BOOLEAN
  | JSON_H_STRING
  | JSON_H_NUMBER
  | JSON_H_OBJECT
  | JSON_H_ARRAY
  | JSON_H_OBJECT_START
  | JSON_H_OBJECT_END
  | JSON_H_ARRAY_START
  | JSON_H_ARRAY_END

text \<open>
  The two values \<open>errno\<close> takes in this code: \<open>EINVAL\<close> is stored by the code itself,
  \<open>ENOMEM\<close> by a failing allocation.
\<close>

datatype errno = EINVAL | ENOMEM

datatype 'a result = Success 'a | Failure errno

text \<open>
  A C execution either returns or has undefined behaviour (a read or write outside an
  object, a read of an indeterminate member, \<open>free\<close> of something that is not a live
  block, signed overflow). Every function of the model that can reach such a step returns
  an \<open>exec\<close>.
\<close>

datatype 'a exec = Returns 'a | Undefined

text \<open>
  Pointers. \<open>Block b\<close> is the start of the allocated block \<open>b\<close>, \<open>Element b i\<close> points to
  the \<open>i\<close>-th element inside block \<open>b\<close>, \<open>Automatic\<close> is the address of a local variable.
\<close>

datatype pointer = Null | Block nat | Element nat nat | Automatic

text \<open>
  \<open>union json_h_value\<close>. The union is tagged by its first member \<open>type\<close>; the
  constructors list which other members hold a determinate value.
  \<^item> \<open>Tagged t\<close>: only \<open>type\<close> has been stored.
  \<^item> \<open>Boolean b\<close>: \<open>type = JSON_H_BOOLEAN\<close> and \<open>boolean.value = b\<close>.
  \<^item> \<open>String p bytes n\<close>: \<open>type = JSON_H_STRING\<close>, \<open>string.s = p\<close>, \<open>string.n = n\<close>;
    \<open>bytes\<close> is the content of the block \<open>p\<close> points to (\<open>None\<close> is a byte that
    was never written).
  \<^item> \<open>Aggregate t p elems n\<close>: \<open>type = t\<close>, \<open>array.values = p\<close> and \<open>array.n = n\<close>, which
    the code reads back as \<open>object.members\<close> and \<open>object.n\<close>; \<open>elems\<close> lists the
    elements of the block \<open>p\<close> points to that have been stored so far, in order.
  The tree is owned strictly top-down, so a block's content is kept with the pointer to it.
\<close>

datatype json_h_value =
    Tagged json_h_type
  | Boolean int
  | String pointer "char option list" nat
  | Aggregate json_h_type pointer "json_h_value list" nat

fun type_of :: "json_h_value \<Rightarrow> json_h_type" where
  "type_of (Tagged t) = t"
| "type_of (Boolean b) = JSON_H_BOOLEAN"
| "type_of (String p bytes n) = JSON_H_STRING"
| "type_of (Aggregate t p elems n) = t"

text \<open>\<open>struct json_h_context\<close> and \<open>JSON_H_CONTEXT_INIT\<close>.\<close>

record json_h_context =
  ctx_r :: nat
  ctx_s :: nat
  ctx_need_end :: int
  ctx_object_state :: int

definition JSON_H_CONTEXT_INIT :: json_h_context where
  "JSON_H_CONTEXT_INIT = \<lparr>ctx_r = 0, ctx_s = 0, ctx_need_end = 0, ctx_object_state = 2\<rparr>"

section \<open>The allocator\<close>

text \<open>
  The heap records which blocks are live. \<open>calls\<close> counts the allocation requests made so
  far and numbers the blocks; \<open>denied\<close> holds the numbers of the requests that fail,
  so that allocation failure can be injected at any request.
\<close>

record heap =
  live :: "nat set"
  calls :: nat
  denied :: "nat set"

definition malloc :: "heap \<Rightarrow> pointer \<times> heap" where
  "malloc h =
     (if calls h \<in> denied h then (Null, h\<lparr>calls := calls h + 1\<rparr>)
      else (Block (calls h), h\<lparr>live := insert (calls h) (live h), calls := calls h + 1\<rparr>))"

fun free :: "pointer \<Rightarrow> heap \<Rightarrow> heap exec" where
  "free Null h = Returns h"
| "free (Block b) h = (if b \<in> live h then Returns (h\<lparr>live := live h - {b}\<rparr>) else Undefined)"
| "free (Element b i) h = Undefined"
| "free Automatic h = Undefined"

text \<open>
  \<open>realloc\<close>: with a null pointer it is \<open>malloc\<close>; otherwise, on success the old block is
  released and a new one returned (the content moves with it), on failure the old block
  stays as it is.
\<close>

fun realloc :: "pointer \<Rightarrow> heap \<Rightarrow> (pointer \<times> heap) exec" where
  "realloc Null h = Returns (malloc h)"
| "realloc (Block b) h =
     (if b \<in> live h
      then Returns (malloc (if calls h \<in> denied h then h else h\<lparr>live := live h - {b}\<rparr>))
      else Undefined)"
| "realloc (Element b i) h = Undefined"
| "realloc Automatic h = Undefined"

section \<open>json_h_destroy and json_h_free\<close>

text \<open>
  The two \<open>while (v->array.n--)\<close> statements of \<open>json_h_destroy\<close>, which count \<open>n\<close>
  down and read element \<open>n\<close> of the block after each decrement. An object's block is read as
  members: member \<open>n\<close> is the pair of elements \<open>2 * n\<close> (its \<open>name\<close>, a
  \<open>struct json_h_string\<close>) and \<open>2 * n + 1\<close> (its \<open>value\<close>). Reading an element that was
  never stored is undefined. The argument of \<open>json_h_destroy\<close> is the value the pointer
  \<open>v\<close> points to, \<open>None\<close> for a null pointer.
\<close>

function json_h_destroy :: "json_h_value option \<Rightarrow> heap \<Rightarrow> heap exec"
  and destroy_array :: "json_h_value list \<Rightarrow> nat \<Rightarrow> heap \<Rightarrow> heap exec"
  and destroy_object :: "json_h_value list \<Rightarrow> nat \<Rightarrow> heap \<Rightarrow> heap exec"
where
  "json_h_destroy None h = Returns h"
| "json_h_destroy (Some (Boolean b)) h = Returns h"
| "json_h_destroy (Some (String p bytes n)) h = free p h"
| "json_h_destroy (Some (Tagged t)) h =
     (if t = JSON_H_STRING \<or> t = JSON_H_OBJECT \<or> t = JSON_H_ARRAY then Undefined
      else Returns h)"
| "json_h_destroy (Some (Aggregate t p elems n)) h =
     (if t = JSON_H_STRING then Undefined
      else if t = JSON_H_OBJECT then
        (case destroy_object elems n h of
           Undefined \<Rightarrow> Undefined
         | Returns h' \<Rightarrow> free p h')
      else if t = JSON_H_ARRAY then
        (case destroy_array elems n h of
           Undefined \<Rightarrow> Undefined
         | Returns h' \<Rightarrow> free p h')
      else Returns h)"
| "destroy_array elems n h =
     (if n = 0 then Returns h
      else if length elems \<le> n - 1 then Undefined
      else
        (case json_h_destroy (Some (elems ! (n - 1))) h of
           Undefined \<Rightarrow> Undefined
         | Returns h' \<Rightarrow> destroy_array elems (n - 1) h'))"
| "destroy_object elems n h =
     (if n = 0 then Returns h
      else if length elems \<le> 2 * (n - 1) + 1 then Undefined
      else
        (case elems ! (2 * (n - 1)) of
           String p bytes k \<Rightarrow>
             (case free p h of
                Undefined \<Rightarrow> Undefined
              | Returns h' \<Rightarrow>
                  (case json_h_destroy (Some (elems ! (2 * (n - 1) + 1))) h' of
                     Undefined \<Rightarrow> Undefined
                   | Returns h'' \<Rightarrow> destroy_object elems (n - 1) h''))
         | _ \<Rightarrow> Undefined))"
  by pat_completeness auto

lemma size_mem_less: "x \<in> set (xs :: json_h_value list) \<Longrightarrow> size x < Suc (size_list size xs)"
  by (induction xs) auto

lemma size_nth_less:
  "i < length (xs :: json_h_value list) \<Longrightarrow> size (xs ! i) < Suc (size_list size xs)"
  by (simp add: size_mem_less)

termination json_h_destroy
  apply (relation "inv_image (less_than <*lex*> less_than)
     (\<lambda>x. case x of
         Inl (v, h) \<Rightarrow> (2 * (case v of None \<Rightarrow> 0 | Some w \<Rightarrow> size w), 0)
       | Inr (Inl (es, n, h)) \<Rightarrow> (2 * size_list size es + 1, n)
       | Inr (Inr (es, n, h)) \<Rightarrow> (2 * size_list size es + 1, n))")
  apply simp_all
  subgoal by (intro wf_inv_image wf_lex_prod wf_less_than)
  subgoal for elems n using size_nth_less[of "n - Suc 0" elems] by linarith
  subgoal for elems n using size_nth_less[of "Suc (2 * (n - Suc 0))" elems] by linarith
  done

text \<open>
  \<open>json_h_free(v)\<close>: \<open>json_h_destroy(v)\<close>, then \<open>free(v)\<close>. The pointer \<open>v\<close> is given by
  its address and by the value stored there.
\<close>

definition json_h_free :: "pointer \<Rightarrow> json_h_value option \<Rightarrow> heap \<Rightarrow> heap exec" where
  "json_h_free p v h =
     (case json_h_destroy v h of
        Undefined \<Rightarrow> Undefined
      | Returns h' \<Rightarrow> free p h')"

section \<open>json_h_parse_string\<close>

text \<open>
  \<open>isxdigit\<close> and \<open>isspace\<close> of the C library, in the ``C'' locale; a byte above
  \<open>0x7F\<close> is in neither class.
\<close>

definition isxdigit :: "char \<Rightarrow> bool" where
  "isxdigit c =
     (let x = (of_char c :: nat)
      in (48 \<le> x \<and> x \<le> 57) \<or> (65 \<le> x \<and> x \<le> 70) \<or> (97 \<le> x \<and> x \<le> 102))"

definition isspace :: "char \<Rightarrow> bool" where
  "isspace c = (let x = (of_char c :: nat) in x = 32 \<or> (9 \<le> x \<and> x \<le> 13))"

text \<open>
  One hexadecimal digit of a \<open>\u\<close> escape, as the source computes it:
  \<open>(s[i] & 15) + ((s[i] > '9') ? 9 : 0)\<close>.
\<close>

definition hex_digit :: "char \<Rightarrow> nat" where
  "hex_digit c = ((of_char c :: nat) AND 15) + (if (57 :: nat) < of_char c then 9 else 0)"

text \<open>
  The code point of a \<open>\u\<close> escape, as the source assembles it: the four digits are shifted
  left by 24, 16, 8 and 0 bits and combined with bitwise or.
\<close>

definition code_point :: "char \<Rightarrow> char \<Rightarrow> char \<Rightarrow> char \<Rightarrow> nat" where
  "code_point c1 c2 c3 c4 =
     push_bit 24 (hex_digit c1) OR push_bit 16 (hex_digit c2)
       OR push_bit 8 (hex_digit c3) OR push_bit 0 (hex_digit c4)"

text \<open>
  The bytes the source stores for a code point, each one cast to \<open>char\<close> (\<open>char_of\<close>
  keeps the low eight bits).
\<close>

definition encode :: "nat \<Rightarrow> char list" where
  "encode cp =
     (if cp \<le> 0x007F then [char_of cp]
      else if cp \<le> 0x07FF then
        [char_of (drop_bit 6 cp OR 0xC0), char_of (drop_bit 0 cp AND 0x3F)]
      else
        [char_of (drop_bit 12 cp OR 0xE0), char_of (drop_bit 6 cp AND 0x3F),
         char_of (drop_bit 0 cp AND 0x3F)])"

text \<open>
  The parameter \<open>n\<close> of \<open>json_h_parse_string\<close> is a pointer to the length, and every
  store of the source is written \<open>buf[*n++] = c\<close>, which is \<open>buf[*(n++)] = c\<close>: the byte
  is stored at index \<open>*n\<close> and then the pointer, not the length, is advanced. The model
  keeps the length \<open>len\<close> the pointer was passed with and the number \<open>k\<close> of times the
  pointer has been advanced. Once \<open>k > 0\<close> the pointer is past the \<open>size_t\<close> object it was
  given, and reading through it is undefined, as is a store outside the block \<open>buf\<close>.
\<close>

definition store :: "char option list \<Rightarrow> nat \<Rightarrow> nat \<Rightarrow> char \<Rightarrow> char option list exec" where
  "store out len k c =
     (if k = 0 \<and> len < length out then Returns (out[len := Some c]) else Undefined)"

fun emit :: "char option list \<Rightarrow> nat \<Rightarrow> nat \<Rightarrow> char list \<Rightarrow> (char option list \<times> nat) exec" where
  "emit out len k [] = Returns (out, k)"
| "emit out len k (c # cs) =
     (case store out len k c of
        Undefined \<Rightarrow> Undefined
      | Returns out' \<Rightarrow> emit out' len (k + 1) cs)"

text \<open>
  The test of the four digits after \<open>\u\<close>, left to right with the short circuit of
  \<open>||\<close>, followed by the computation of the code point. \<open>None\<close> is the jump to
  \<open>einval\<close>; reading past the end of the source buffer is undefined.
\<close>

definition escape_u :: "char list \<Rightarrow> nat \<Rightarrow> nat option exec" where
  "escape_u src i =
     (if length src \<le> i + 1 then Undefined
      else if \<not> isxdigit (src ! (i + 1)) then Returns None
      else if length src \<le> i + 2 then Undefined
      else if \<not> isxdigit (src ! (i + 2)) then Returns None
      else if length src \<le> i + 3 then Undefined
      else if \<not> isxdigit (src ! (i + 3)) then Returns None
      else if length src \<le> i + 4 then Undefined
      else if \<not> isxdigit (src ! (i + 4)) then Returns None
      else Returns (Some (code_point (src ! (i + 1)) (src ! (i + 2)) (src ! (i + 3)) (src ! (i + 4)))))"

text \<open>
  The bytes stored for the character after a backslash, in the order of the source's
  tests, and the number of source bytes consumed beyond that character (\<open>s++\<close> against
  \<open>s += 5\<close>); \<open>None\<close> is the jump to \<open>einval\<close>.
\<close>

definition escape :: "char list \<Rightarrow> nat \<Rightarrow> (char list \<times> nat) option exec" where
  \<open>escape src i =
     (let c = src ! i in
      if c = CHR ''"'' \<or> c = CHR 0x5C \<or> c = CHR ''/'' then Returns (Some ([c], 0))
      else if c = CHR ''b'' then Returns (Some ([CHR 0x08], 0))
      else if c = CHR ''f'' then Returns (Some ([CHR 0x0C], 0))
      else if c = CHR ''n'' then Returns (Some ([CHR 0x0A], 0))
      else if c = CHR ''r'' then Returns (Some ([CHR 0x0D], 0))
      else if c = CHR ''t'' then Returns (Some ([CHR 0x09], 0))
      else if c = CHR ''u'' then
        (case escape_u src i of
           Undefined \<Rightarrow> Undefined
         | Returns None \<Rightarrow> Returns None
         | Returns (Some cp) \<Rightarrow> Returns (Some (encode cp, 4)))
      else Returns None)\<close>

text \<open>
  The loop of \<open>json_h_parse_string\<close>. \<open>out\<close> is the block \<open>buf\<close>, \<open>src\<close> the buffer \<open>s\<close>
  points into and \<open>i\<close> the index of \<open>s\<close> in it. The result is the block as it is when
  the function returns 0, or \<open>EINVAL\<close> when it returns -1. The length \<open>*n\<close> is never
  written, so the caller finds it as it was.
\<close>

function json_h_parse_string ::
  "char option list \<Rightarrow> nat \<Rightarrow> nat \<Rightarrow> char list \<Rightarrow> nat \<Rightarrow> bool \<Rightarrow> char option list result exec"
where
  \<open>json_h_parse_string out len k src i esc =
     (if length src \<le> i then Undefined
      else if esc then
        (case escape src i of
           Undefined \<Rightarrow> Undefined
         | Returns None \<Rightarrow> Returns (Failure EINVAL)
         | Returns (Some (cs, d)) \<Rightarrow>
             (case emit out len k cs of
                Undefined \<Rightarrow> Undefined
              | Returns (out', k') \<Rightarrow>
                  json_h_parse_string out' len k' src (i + 1 + d) False))
      else if src ! i = CHR 0x5C then json_h_parse_string out len k src (i + 1) True
      else if src ! i = CHR ''"'' then
        (case store out len k (CHR 0x00) of
           Undefined \<Rightarrow> Undefined
         | Returns out' \<Rightarrow> Returns (Success out'))
      else if (of_char (src ! i) :: nat) < 32 then Returns (Failure EINVAL)
      else
        (case emit out len k [src ! i] of
           Undefined \<Rightarrow> Undefined
         | Returns (out', k') \<Rightarrow> json_h_parse_string out' len k' src (i + 1) False))\<close>
  by pat_completeness auto
termination
  by (relation "measure (\<lambda>(out, len, k, src, i, esc). length src - i)") auto

declare json_h_parse_string.simps [simp del]

section \<open>json_h_next\<close>

text \<open>
  What a call of \<open>json_h_next\<close> returns: 1 with the token stored in \<open>*out\<close>, 0, or -1
  with \<open>errno\<close>.
\<close>

datatype token = Produced json_h_value | Finished | Failed errno

text \<open>
  The \<open>for\<close> loop of the string case, which looks for the closing quote. It starts with
  \<open>m = 1\<close> and \<open>esc = 0\<close> and returns the final \<open>ctx->r\<close> and \<open>m\<close>.
\<close>

function scan_string :: "char list \<Rightarrow> nat \<Rightarrow> nat \<Rightarrow> bool \<Rightarrow> nat \<times> nat" where
  \<open>scan_string buf r m esc =
     (if r < length buf then
        (if buf ! r = CHR 0x5C then scan_string buf (r + 1) (m + 1) True
         else if esc then scan_string buf (r + 1) (m + 1) False
         else if buf ! r = CHR ''"'' then (r, m)
         else scan_string buf (r + 1) (m + 1) esc)
      else (r, m))\<close>
  by pat_completeness auto
termination
  by (relation "measure (\<lambda>(buf, r, m, esc). length buf - r)") auto

declare scan_string.simps [simp del]

text \<open>
  The body of the \<open>switch\<close> for the byte \<open>c\<close> that was just read; \<open>ctx\<close> already has the
  incremented \<open>r\<close>. A case either ends in \<open>break\<close>, and the \<open>while\<close> loop goes on with
  the context, or it leaves \<open>json_h_next\<close> with a token. \<open>n\<close> is \<open>length buf\<close>. A store
  or read of the delimiter stack outside the buffer is undefined.
\<close>

datatype switched = Break json_h_context | Return json_h_context "char list" heap token

definition einval :: "json_h_context \<Rightarrow> char list \<Rightarrow> heap \<Rightarrow> switched exec" where
  "einval ctx buf h = Returns (Return ctx buf h (Failed EINVAL))"

definition case_string :: "json_h_context \<Rightarrow> char list \<Rightarrow> heap \<Rightarrow> switched exec" where
  "case_string ctx buf h =
     (if ctx_need_end ctx \<noteq> 0 \<or> ctx_object_state ctx = 1 then einval ctx buf h
      else
        (case scan_string buf (ctx_r ctx) 1 False of
           (r', m) \<Rightarrow>
             (let ctx' = ctx\<lparr>ctx_r := r' + 1\<rparr> in
              if r' = m then einval ctx' buf h
              else
                (case malloc h of
                   (p, h') \<Rightarrow>
                     (if p = Null then Returns (Return ctx' buf h' (Failed ENOMEM))
                      else
                        (case json_h_parse_string (replicate m None) 0 0 buf (ctx_r ctx) False of
                           Undefined \<Rightarrow> Undefined
                         | Returns (Failure e) \<Rightarrow>
                             (case free p h' of
                                Undefined \<Rightarrow> Undefined
                              | Returns h'' \<Rightarrow> Returns (Return ctx' buf h'' (Failed e)))
                         | Returns (Success bytes) \<Rightarrow>
                             Returns
                               (Return
                                  (ctx'\<lparr>ctx_need_end := 1,
                                        ctx_object_state :=
                                          (if ctx_object_state ctx' = 0 then 1
                                           else ctx_object_state ctx')\<rparr>)
                                  buf h' (Produced (String p bytes 0)))))))))"

definition case_literal ::
  "string \<Rightarrow> json_h_value \<Rightarrow> json_h_context \<Rightarrow> char list \<Rightarrow> heap \<Rightarrow> switched exec"
where
  "case_literal rest v ctx buf h =
     (if ctx_need_end ctx \<noteq> 0 \<or> ctx_object_state ctx \<noteq> 2 then einval ctx buf h
      else if length rest > length buf - ctx_r ctx \<or> take (length rest) (drop (ctx_r ctx) buf) \<noteq> rest
      then einval ctx buf h
      else Returns (Return (ctx\<lparr>ctx_r := ctx_r ctx + length rest, ctx_need_end := 1\<rparr>) buf h
                      (Produced v)))"

definition switch :: "char \<Rightarrow> json_h_context \<Rightarrow> char list \<Rightarrow> heap \<Rightarrow> switched exec" where
  \<open>switch c ctx buf h =
     (if c = CHR ''{'' then
        (if ctx_need_end ctx \<noteq> 0 \<or> ctx_object_state ctx \<noteq> 2 then einval ctx buf h
         else if length buf \<le> ctx_s ctx then Undefined
         else Returns (Return (ctx\<lparr>ctx_s := ctx_s ctx + 1, ctx_object_state := 0\<rparr>)
                         (buf[ctx_s ctx := CHR ''{'']) h (Produced (Tagged JSON_H_OBJECT_START))))
      else if c = CHR ''}'' then
        (if ctx_object_state ctx \<noteq> 0 then einval ctx buf h
         else if ctx_s ctx = 0 then einval ctx buf h
         else if length buf \<le> ctx_s ctx - 1 then Undefined
         else if buf ! (ctx_s ctx - 1) \<noteq> CHR ''{'' then einval (ctx\<lparr>ctx_s := ctx_s ctx - 1\<rparr>) buf h
         else Returns (Return (ctx\<lparr>ctx_s := ctx_s ctx - 1, ctx_need_end := 1\<rparr>) buf h
                         (Produced (Tagged JSON_H_OBJECT_END))))
      else if c = CHR ''['' then
        (if ctx_need_end ctx \<noteq> 0 \<or> ctx_object_state ctx \<noteq> 2 then einval ctx buf h
         else if length buf \<le> ctx_s ctx then Undefined
         else Returns (Return (ctx\<lparr>ctx_s := ctx_s ctx + 1\<rparr>)
                         (buf[ctx_s ctx := CHR ''['']) h (Produced (Tagged JSON_H_ARRAY_START))))
      else if c = CHR '']'' then
        (if ctx_s ctx = 0 then einval ctx buf h
         else if length buf \<le> ctx_s ctx - 1 then Undefined
         else if buf ! (ctx_s ctx - 1) \<noteq> CHR ''['' then einval (ctx\<lparr>ctx_s := ctx_s ctx - 1\<rparr>) buf h
         else Returns (Return (ctx\<lparr>ctx_s := ctx_s ctx - 1, ctx_need_end := 1\<rparr>) buf h
                         (Produced (Tagged JSON_H_ARRAY_END))))
      else if c = CHR ''"'' then case_string ctx buf h
      else if c = CHR ''n'' then case_literal ''ull'' (Tagged JSON_H_NULL) ctx buf h
      else if c = CHR ''t'' then case_literal ''rue'' (Boolean 1) ctx buf h
      else if c = CHR ''f'' then case_literal ''alse'' (Boolean 0) ctx buf h
      else if c = CHR '','' then
        (if ctx_object_state ctx \<noteq> 2 then einval ctx buf h
         else if ctx_s ctx \<noteq> 0 \<and> length buf \<le> ctx_s ctx - 1 then Undefined
         else Returns
                (Break
                   (ctx\<lparr>ctx_object_state :=
                          (if ctx_s ctx \<noteq> 0 \<and> buf ! (ctx_s ctx - 1) = CHR ''{'' then 0
                           else ctx_object_state ctx),
                        ctx_need_end := 0\<rparr>)))
      else if c = CHR '':'' then
        (if ctx_object_state ctx \<noteq> 1 then einval ctx buf h
         else Returns (Break (ctx\<lparr>ctx_object_state := 2, ctx_need_end := 0\<rparr>)))
      else
        (if isspace c then Returns (Break ctx)
         else if ctx_need_end ctx \<noteq> 0 \<or> ctx_object_state ctx \<noteq> 2 then einval ctx buf h
         else einval (ctx\<lparr>ctx_r := ctx_r ctx - 1\<rparr>) buf h))\<close>

text \<open>
  \<open>json_h_next\<close>: the \<open>while (ctx->r < n)\<close> loop around the \<open>switch\<close>, and the test of
  the nesting cursor after it. The result holds the context and the buffer as the call
  leaves them.
\<close>

function json_h_next ::
  "json_h_context \<Rightarrow> char list \<Rightarrow> heap \<Rightarrow> (json_h_context \<times> char list \<times> heap \<times> token) exec"
where
  "json_h_next ctx buf h =
     (if ctx_r ctx < length buf then
        (case switch (buf ! ctx_r ctx) (ctx\<lparr>ctx_r := ctx_r ctx + 1\<rparr>) buf h of
           Undefined \<Rightarrow> Undefined
         | Returns (Return ctx' buf' h' t) \<Rightarrow> Returns (ctx', buf', h', t)
         | Returns (Break ctx') \<Rightarrow> json_h_next ctx' buf h)
      else if ctx_s ctx = 0 then Returns (ctx, buf, h, Finished)
      else Returns (ctx, buf, h, Failed EINVAL))"
  by pat_completeness auto

lemma case_string_break: "case_string ctx buf h = Returns (Break ctx') \<Longrightarrow> False"
  by (auto simp: case_string_def einval_def Let_def
           split: prod.splits exec.splits result.splits if_splits)

lemma case_literal_break: "case_literal rest v ctx buf h = Returns (Break ctx') \<Longrightarrow> False"
  by (auto simp: case_literal_def einval_def split: if_splits)

lemma switch_break:
  assumes "switch c ctx buf h = Returns (Break ctx')"
  shows "ctx_r ctx' = ctx_r ctx \<and> ctx_s ctx' = ctx_s ctx"
  using assms
  by (auto simp: switch_def einval_def split: if_splits
           dest: case_string_break case_literal_break)

termination json_h_next
  by (relation "measure (\<lambda>(ctx, buf, h). length buf - ctx_r ctx)")
     (auto dest!: switch_break)

declare json_h_next.simps [simp del]

section \<open>json_h_parse_ and json_h_parse\<close>

text \<open>
  The growth step at the head of the loop of \<open>json_h_parse_\<close>: when \<open>value->array.n\<close>
  equals \<open>size\<close> (an \<open>int\<close>, here \<open>sz\<close>), \<open>size\<close> grows by 16 and the block is
  reallocated. When \<open>realloc\<close> fails the source calls \<open>json_h_free(value)\<close>, which
  destroys the node and then passes \<open>value\<close> itself to \<open>free\<close>. The result is the block
  and the new \<open>size\<close>.
\<close>

definition grow ::
  "pointer \<Rightarrow> json_h_type \<Rightarrow> pointer \<Rightarrow> json_h_value list \<Rightarrow> nat \<Rightarrow> int \<Rightarrow> heap \<Rightarrow>
   (heap \<times> (pointer \<times> int) result) exec"
where
  "grow value t p elems n sz h =
     (if int n = sz then
        (if 2147483647 < sz + 16 then Undefined
         else
           (case realloc p h of
              Undefined \<Rightarrow> Undefined
            | Returns (newarray, h') \<Rightarrow>
                (if newarray = Null then
                   (case json_h_free value (Some (Aggregate t p elems n)) h' of
                      Undefined \<Rightarrow> Undefined
                    | Returns h'' \<Rightarrow> Returns (h'', Failure ENOMEM))
                 else Returns (h', Success (newarray, sz + 16)))))
      else Returns (h, Success (p, sz)))"

text \<open>
  \<open>json_h_parse_\<close> of the source, here \<open>json_h_parse_rec\<close> (a name cannot end in an
  underscore), and its \<open>for\<close> loop, here \<open>collect\<close>. \<open>value\<close> is the address the node
  is built at; the node's content during the loop is \<open>Aggregate t p elems n\<close>, where \<open>t\<close>
  is still the start marker the scanner stored. Each child is built in place at
  \<open>&value->array.values[n]\<close>. When a child fails, the source calls
  \<open>json_h_destroy(value)\<close> on the node as it is then.
\<close>

function json_h_parse_rec ::
  "json_h_context \<Rightarrow> char list \<Rightarrow> heap \<Rightarrow> pointer \<Rightarrow>
   (json_h_context \<times> char list \<times> heap \<times> json_h_value result) exec"
and collect ::
  "json_h_context \<Rightarrow> char list \<Rightarrow> heap \<Rightarrow> pointer \<Rightarrow> json_h_type \<Rightarrow> pointer \<Rightarrow>
   json_h_value list \<Rightarrow> nat \<Rightarrow> int \<Rightarrow>
   (json_h_context \<times> char list \<times> heap \<times> json_h_value result) exec"
where
  "json_h_parse_rec ctx buf h value =
     (case json_h_next ctx buf h of
        Undefined \<Rightarrow> Undefined
      | Returns (ctx', buf', h', Failed e) \<Rightarrow> Returns (ctx', buf', h', Failure e)
      | Returns (ctx', buf', h', Finished) \<Rightarrow> Returns (ctx', buf', h', Failure EINVAL)
      | Returns (ctx', buf', h', Produced v) \<Rightarrow>
          (if type_of v = JSON_H_OBJECT_START \<or> type_of v = JSON_H_ARRAY_START
           then collect ctx' buf' h' value (type_of v) Null [] 0 0
           else Returns (ctx', buf', h', Success v)))"
| "collect ctx buf h value t p elems n sz =
     (case grow value t p elems n sz h of
        Undefined \<Rightarrow> Undefined
      | Returns (h', Failure e) \<Rightarrow> Returns (ctx, buf, h', Failure e)
      | Returns (h', Success (values, sz')) \<Rightarrow>
          (case values of
             Block b \<Rightarrow>
               (case json_h_parse_rec ctx buf h' (Element b n) of
                  Undefined \<Rightarrow> Undefined
                | Returns (ctx', buf', h'', Failure e) \<Rightarrow>
                    (case json_h_destroy (Some (Aggregate t values elems n)) h'' of
                       Undefined \<Rightarrow> Undefined
                     | Returns h''' \<Rightarrow> Returns (ctx', buf', h''', Failure e))
                | Returns (ctx', buf', h'', Success child) \<Rightarrow>
                    (if type_of child = JSON_H_OBJECT_END then
                       Returns (ctx', buf', h'',
                                Success (Aggregate JSON_H_OBJECT values (elems @ [child]) (n div 2)))
                     else if type_of child = JSON_H_ARRAY_END then
                       Returns (ctx', buf', h'',
                                Success (Aggregate JSON_H_ARRAY values (elems @ [child]) n))
                     else collect ctx' buf' h'' value t values (elems @ [child]) (n + 1) sz'))
           | _ \<Rightarrow> Undefined))"
  by pat_completeness auto


text \<open>
  Every token the scanner produces moves the read cursor forward, which is why the
  recursion of \<open>json_h_parse_rec\<close> ends.
\<close>

lemma scan_string_ge: "scan_string buf r m esc = (r', m') \<Longrightarrow> r \<le> r'"
proof (induction buf r m esc rule: scan_string.induct)
  case (1 buf r m esc)
  show ?case
    using "1.prems" "1.IH"
    by (subst (asm) scan_string.simps) (fastforce split: if_splits)
qed

lemma case_string_facts:
  assumes "case_string ctx buf h = Returns (Return ctx' buf' h' t)"
  shows "buf' = buf \<and> ctx_s ctx' = ctx_s ctx \<and> ctx_r ctx \<le> ctx_r ctx'"
  using assms
  by (auto simp: case_string_def einval_def Let_def
           split: prod.splits exec.splits result.splits if_splits
           dest: scan_string_ge)

lemma case_literal_facts:
  assumes "case_literal rest v ctx buf h = Returns (Return ctx' buf' h' t)"
  shows "buf' = buf \<and> ctx_s ctx' = ctx_s ctx \<and> ctx_r ctx \<le> ctx_r ctx' \<and> h' = h"
  using assms by (auto simp: case_literal_def einval_def split: if_splits)

lemma switch_length:
  assumes "switch c ctx buf h = Returns (Return ctx' buf' h' t)"
  shows "length buf' = length buf"
  using assms
  by (auto simp: switch_def einval_def split: if_splits
           dest: case_string_facts case_literal_facts)

lemma switch_produced:
  assumes "switch c ctx buf h = Returns (Return ctx' buf' h' (Produced v))"
  shows "ctx_r ctx \<le> ctx_r ctx'"
  using assms
  by (auto simp: switch_def einval_def split: if_splits
           dest: case_string_facts case_literal_facts)

lemma json_h_next_produced:
  "json_h_next ctx buf h = Returns (ctx', buf', h', Produced v) \<Longrightarrow>
   ctx_r ctx < ctx_r ctx' \<and> length buf' = length buf \<and> ctx_r ctx < length buf"
proof (induction ctx buf h rule: json_h_next.induct)
  case (1 ctx buf h)
  from "1.prems" have lt: "ctx_r ctx < length buf"
    by (subst (asm) json_h_next.simps) (auto split: if_splits)
  obtain sw where sw:
    "switch (buf ! ctx_r ctx) (ctx\<lparr>ctx_r := ctx_r ctx + 1\<rparr>) buf h = Returns sw"
    using "1.prems" lt
    by (subst (asm) json_h_next.simps) (auto split: exec.splits)
  show ?case
  proof (cases sw)
    case (Break c1)
    with sw lt "1.prems" have nx: "json_h_next c1 buf h = Returns (ctx', buf', h', Produced v)"
      by (subst (asm) json_h_next.simps) simp
    from sw Break have "ctx_r c1 = ctx_r ctx + 1"
      using switch_break by fastforce
    with "1.IH"[OF lt sw Break nx] lt show ?thesis by simp
  next
    case (Return c1 b1 h1 t)
    with sw lt "1.prems" have "c1 = ctx'" "b1 = buf'" "t = Produced v"
      by (subst (asm) json_h_next.simps, simp)+
    with sw Return switch_produced[of _ _ buf h ctx' buf' h1 v] switch_length[of _ _ buf h ctx' buf' h1] lt
    show ?thesis by fastforce
  qed
qed

lemma json_h_parse_rec_progress:
  "json_h_parse_rec_collect_dom (Inl (ctx, buf, h, value)) \<Longrightarrow>
   json_h_parse_rec ctx buf h value = Returns (ctx', buf', h', Success v) \<Longrightarrow>
   ctx_r ctx < ctx_r ctx' \<and> length buf' = length buf \<and> ctx_r ctx < length buf"
  "json_h_parse_rec_collect_dom (Inr (ctx, buf, h, value, t, p, elems, n, sz)) \<Longrightarrow>
   collect ctx buf h value t p elems n sz = Returns (ctx', buf', h', Success v) \<Longrightarrow>
   ctx_r ctx < ctx_r ctx' \<and> length buf' = length buf \<and> ctx_r ctx < length buf"
proof (induction ctx buf h "value" and ctx buf h "value" t p elems n sz
       arbitrary: ctx' buf' h' v and ctx' buf' h' v rule: json_h_parse_rec_collect.pinduct)
  case (1 ctx buf h "value")
  from "1.prems" obtain c1 b1 h1 x where
    nx: "json_h_next ctx buf h = Returns (c1, b1, h1, Produced x)"
    by (simp add: json_h_parse_rec.psimps[OF "1.hyps"]
             split: exec.splits prod.splits token.splits)
  note np = json_h_next_produced[OF nx]
  show ?case
  proof (cases "type_of x = JSON_H_OBJECT_START \<or> type_of x = JSON_H_ARRAY_START")
    case True
    with "1.prems" nx have
      "collect c1 b1 h1 value (type_of x) Null [] 0 0 = Returns (ctx', buf', h', Success v)"
      by (simp add: json_h_parse_rec.psimps[OF "1.hyps"])
    from "1.IH"[OF nx refl refl refl refl True this] np show ?thesis by simp
  next
    case False
    with "1.prems" nx have "c1 = ctx'" "b1 = buf'"
      by (simp_all add: json_h_parse_rec.psimps[OF "1.hyps"])
    with np show ?thesis by simp
  qed
next
  case (2 ctx buf h "value" t p elems n sz)
  from "2.prems" obtain h1 b sz' where
    gr: "grow value t p elems n sz h = Returns (h1, Success (Block b, sz'))"
    by (simp add: collect.psimps[OF "2.hyps"]
             split: exec.splits prod.splits result.splits pointer.splits)
  from "2.prems" gr obtain c2 b2 h2 child where
    ch: "json_h_parse_rec ctx buf h1 (Element b n) = Returns (c2, b2, h2, Success child)"
    by (simp add: collect.psimps[OF "2.hyps"]
             split: exec.splits prod.splits result.splits)
  note p1 = "2.IH"(1)[OF gr refl refl refl refl ch]
  show ?case
  proof (cases "type_of child = JSON_H_OBJECT_END \<or> type_of child = JSON_H_ARRAY_END")
    case True
    with "2.prems" gr ch have "c2 = ctx'" "b2 = buf'"
      by (auto simp add: collect.psimps[OF "2.hyps"] split: if_splits)
    with p1 show ?thesis by simp
  next
    case False
    with "2.prems" gr ch have
      "collect c2 b2 h2 value t (Block b) (elems @ [child]) (n + 1) sz' =
       Returns (ctx', buf', h', Success v)"
      by (simp add: collect.psimps[OF "2.hyps"])
    from "2.IH"(2)[OF gr refl refl refl refl ch refl refl refl refl _ _ this] False p1
    show ?thesis by simp
  qed
qed

termination json_h_parse_rec
  apply (relation "measure (\<lambda>x. case x of
            Inl (ctx, buf, h, value) \<Rightarrow> 2 * (length buf + 1 - ctx_r ctx)
          | Inr (ctx, buf, h, value, t, p, elems, n, sz) \<Rightarrow> 2 * (length buf + 1 - ctx_r ctx) + 1)")
  subgoal by simp
  subgoal for ctx buf h "value" x1 c1 y b1 ya h1 tok x
    using json_h_next_produced[of ctx buf h c1 b1 h1 x] by auto
  subgoal by simp
  subgoal for ctx buf h "value" t p elems n sz x1 h1 y x1a xa sz' b x1b c2 yb b2 yc h2 yd child
    using json_h_parse_rec_progress(1)[of ctx buf h1 "Element b n" c2 b2 h2 child] by auto
  done

declare json_h_parse_rec.simps [simp del] collect.simps [simp del]

text \<open>
  \<open>json_h_parse\<close>. The result holds the buffer as the call leaves it, the heap, and
  either the returned pointer with the tree it points to or, for a null return, \<open>errno\<close>.
\<close>

definition json_h_parse ::
  "char list \<Rightarrow> heap \<Rightarrow> (char list \<times> heap \<times> (pointer \<times> json_h_value) result) exec"
where
  "json_h_parse buf h =
     (case malloc h of
        (ret, h0) \<Rightarrow>
          if ret = Null then Returns (buf, h0, Failure ENOMEM)
          else
          (case json_h_parse_rec JSON_H_CONTEXT_INIT buf h0 ret of
             Undefined \<Rightarrow> Undefined
           | Returns (ctx, buf1, h1, Failure e) \<Rightarrow>
               (case free ret h1 of
                  Undefined \<Rightarrow> Undefined
                | Returns h2 \<Rightarrow> Returns (buf1, h2, Failure e))
           | Returns (ctx, buf1, h1, Success v) \<Rightarrow>
               (case json_h_next ctx buf1 h1 of
                  Undefined \<Rightarrow> Undefined
                | Returns (ctx', buf2, h2, Failed e) \<Rightarrow>
                    (case json_h_free ret (Some v) h2 of
                       Undefined \<Rightarrow> Undefined
                     | Returns h3 \<Rightarrow> Returns (buf2, h3, Failure e))
                | Returns (ctx', buf2, h2, Produced t) \<Rightarrow>
                    (case json_h_destroy (Some t) h2 of
                       Undefined \<Rightarrow> Undefined
                     | Returns h3 \<Rightarrow>
                         (case json_h_free ret (Some v) h3 of
                            Undefined \<Rightarrow> Undefined
                          | Returns h4 \<Rightarrow> Returns (buf2, h4, Failure EINVAL)))
                | Returns (ctx', buf2, h2, Finished) \<Rightarrow> Returns (buf2, h2, Success (ret, v)))))"

text \<open>A heap with no live block in which every allocation request succeeds.\<close>

definition fresh_heap :: heap where
  "fresh_heap = \<lparr>live = {}, calls = 0, denied = {}\<rparr>"

section \<open>Auxiliary definitions for the properties\<close>

text \<open>
  A sequence of calls of \<open>json_h_next\<close> on one context and one buffer. Between two calls
  the caller may allocate and free as it likes, so each call gets a heap of its own; the
  tokens are dropped. The result is the context and the buffer after the last call.
\<close>

fun json_h_next_calls ::
  "heap list \<Rightarrow> json_h_context \<Rightarrow> char list \<Rightarrow> (json_h_context \<times> char list) exec"
where
  "json_h_next_calls [] ctx buf = Returns (ctx, buf)"
| "json_h_next_calls (h # hs) ctx buf =
     (case json_h_next ctx buf h of
        Undefined \<Rightarrow> Undefined
      | Returns (ctx', buf', h', t) \<Rightarrow> json_h_next_calls hs ctx' buf')"

text \<open>
  The four tags that only the scanner uses, and the nodes of a tree: a node of type
  \<open>JSON_H_ARRAY\<close> has its first \<open>n\<close> elements as children, a node of type
  \<open>JSON_H_OBJECT\<close> the names and values of its first \<open>n\<close> members, which are the first
  \<open>2 * n\<close> elements of its block.
\<close>

definition marker :: "json_h_type \<Rightarrow> bool" where
  "marker t =
     (t = JSON_H_OBJECT_START \<or> t = JSON_H_OBJECT_END \<or> t = JSON_H_ARRAY_START \<or> t = JSON_H_ARRAY_END)"

function nodes :: "json_h_value \<Rightarrow> json_h_value list" where
  "nodes (Tagged t) = [Tagged t]"
| "nodes (Boolean b) = [Boolean b]"
| "nodes (String p bytes n) = [String p bytes n]"
| "nodes (Aggregate t p elems n) =
     Aggregate t p elems n #
     concat (map nodes (take (if t = JSON_H_OBJECT then 2 * n else n) elems))"
  by pat_completeness auto
termination
  by (relation "measure size") (auto dest!: size_mem_less[OF in_set_takeD])

definition finished :: "json_h_value \<Rightarrow> bool" where
  "finished v = (\<forall>x \<in> set (nodes v). \<not> marker (type_of x))"

definition is_end :: "json_h_value \<Rightarrow> bool" where
  "is_end v = (type_of v = JSON_H_OBJECT_END \<or> type_of v = JSON_H_ARRAY_END)"

section \<open>Properties\<close>

lemmas eval_simps =
  json_h_parse_def json_h_parse_rec.simps collect.simps grow_def json_h_next.simps switch_def
  case_string_def case_literal_def scan_string.simps einval_def isspace_def isxdigit_def
  malloc_def json_h_parse_string.simps store_def escape_def escape_u_def
  JSON_H_CONTEXT_INIT_def json_h_free_def Let_def

subsection \<open>Destroying a null pointer\<close>

text \<open>
  C9. \<open>json_h_destroy\<close> applied to a null pointer returns at once: no block is freed, the
  heap is returned as it was given.
\<close>

theorem json_h_destroy_null: "json_h_destroy None h = Returns h"
  by simp

subsection \<open>Empty containers\<close>

text \<open>
  C5. On any heap that grants the two allocation requests the call makes, \<open>json_h_parse\<close>
  applied to \<open>{}\<close> returns a node of type \<open>JSON_H_OBJECT\<close> with \<open>n = 0\<close>, and applied to
  \<open>[]\<close> a node of type \<open>JSON_H_ARRAY\<close> with \<open>n = 0\<close>. (The one element stored in the
  block is the end marker, which lies beyond \<open>n\<close>.)
\<close>

theorem json_h_parse_empty_containers:
  assumes "calls h \<notin> denied h" and "calls h + 1 \<notin> denied h"
  shows \<open>json_h_parse ''{}'' h =
     Returns (''{}'',
       h\<lparr>live := insert (calls h + 1) (insert (calls h) (live h)), calls := calls h + 2\<rparr>,
       Success (Block (calls h),
                Aggregate JSON_H_OBJECT (Block (calls h + 1)) [Tagged JSON_H_OBJECT_END] 0))
   \<and> json_h_parse ''[]'' h =
     Returns (''[]'',
       h\<lparr>live := insert (calls h + 1) (insert (calls h) (live h)), calls := calls h + 2\<rparr>,
       Success (Block (calls h),
                Aggregate JSON_H_ARRAY (Block (calls h + 1)) [Tagged JSON_H_ARRAY_END] 0))\<close>
  using assms by (simp add: eval_simps)

theorem json_h_parse_empty_containers_witness:
  \<open>calls fresh_heap \<notin> denied fresh_heap \<and> calls fresh_heap + 1 \<notin> denied fresh_heap
   \<and> json_h_parse ''{}'' fresh_heap =
     Returns (''{}'', \<lparr>live = {1, 0}, calls = 2, denied = {}\<rparr>,
       Success (Block 0, Aggregate JSON_H_OBJECT (Block 1) [Tagged JSON_H_OBJECT_END] 0))
   \<and> json_h_parse ''[]'' fresh_heap =
     Returns (''[]'', \<lparr>live = {1, 0}, calls = 2, denied = {}\<rparr>,
       Success (Block 0, Aggregate JSON_H_ARRAY (Block 1) [Tagged JSON_H_ARRAY_END] 0))\<close>
proof -
  have a: "calls fresh_heap \<notin> denied fresh_heap" and b: "calls fresh_heap + 1 \<notin> denied fresh_heap"
    by (simp_all add: fresh_heap_def)
  show ?thesis
    using a b json_h_parse_empty_containers [OF a b]
    by (simp add: fresh_heap_def)
qed

subsection \<open>Objects with a member\<close>

text \<open>
  C1. The claim is that \<open>{"a":1}\<close> fails with a syntax error and that \<open>{"a":"1"}\<close> is
  parsed to an object with the one member \<open>"a"\<close>: \<open>"1"\<close>. The source does not parse
  \<open>{"a":"1"}\<close>. Decoding the key \<open>"a"\<close> stores its byte with \<open>buf[*n++]\<close>, which
  advances the pointer \<open>n\<close> instead of the length, so the terminating store \<open>buf[*n]\<close>
  reads past the length it was given: the call has no defined result. With empty strings
  in place of \<open>"a"\<close> and \<open>"1"\<close> the decoder is not involved and the object is still
  rejected: the case for \<open>}\<close> demands \<open>object_state == 0\<close>, and after a member's value
  the state is 2.
\<close>

theorem json_h_parse_object_member:
  \<open>json_h_parse ''{"a":"1"}'' fresh_heap = Undefined
   \<and> json_h_parse ''{"":""}'' fresh_heap =
       Returns (''{"":""}'', \<lparr>live = {1, 2, 3}, calls = 4, denied = {}\<rparr>, Failure EINVAL)\<close>
  by code_simp

text \<open>On no heap does \<open>json_h_parse\<close> return a tree for \<open>{"a":"1"}\<close>.\<close>

lemma json_h_parse_object_member_never:
  \<open>json_h_parse ''{"a":"1"}'' h \<noteq> Returns (buf', h', Success v)\<close>
  by (simp add: eval_simps)

text \<open>
  The first half of the claim, with an empty key: the digit is rejected with \<open>EINVAL\<close>.
  With the key \<open>"a"\<close> the call is undefined before the digit is reached.
\<close>

lemma json_h_parse_object_number:
  \<open>json_h_parse ''{"":1}'' fresh_heap =
     Returns (''{"":1}'', \<lparr>live = {1, 2}, calls = 3, denied = {}\<rparr>, Failure EINVAL)
   \<and> json_h_parse ''{"a":1}'' fresh_heap = Undefined\<close>
  by code_simp

subsection \<open>Unwinding after a failed child\<close>

text \<open>
  C2. The claim is that when a child fails, the children collected so far and their block
  are destroyed before the failure is passed on. In the source the failing branch calls
  \<open>json_h_destroy(value)\<close> while \<open>value->type\<close> is still the start marker, for which
  \<open>json_h_destroy\<close> does nothing. For \<open>[[],1]\<close> the parse fails with \<open>EINVAL\<close> at the
  digit, and the block of the outer array (block 1) and the block of the finished inner
  array (block 2) are still live when \<open>json_h_parse\<close> returns: only the root (block 0)
  was freed.
\<close>

theorem json_h_parse_failure_leaks:
  \<open>json_h_parse ''[[],1]'' fresh_heap =
     Returns (''[[],1]'', \<lparr>live = {1, 2}, calls = 3, denied = {}\<rparr>, Failure EINVAL)\<close>
  by code_simp

text \<open>
  When \<open>realloc\<close> fails, \<open>json_h_free(value)\<close> frees the node itself; for the root
  \<open>json_h_parse\<close> then frees it a second time.
\<close>

lemma json_h_parse_realloc_failure:
  \<open>json_h_parse ''[]'' (fresh_heap\<lparr>denied := {1}\<rparr>) = Undefined\<close>
  by code_simp

text \<open>
  When the allocation of a string's block fails inside an array, the array's block
  (block 1) stays live as well.
\<close>

lemma json_h_parse_malloc_failure:
  \<open>json_h_parse ''[""]'' (fresh_heap\<lparr>denied := {2}\<rparr>) =
     Returns (''[""]'', \<lparr>live = {1}, calls = 3, denied = {2}\<rparr>, Failure ENOMEM)\<close>
  by code_simp

subsection \<open>Unicode escapes\<close>

text \<open>
  C3. The claim is that \<open>\u0041\<close> decodes to the one byte \<open>A\<close> and \<open>\n\<close> to one
  newline byte. The source shifts the four digits by 24, 16, 8 and 0 bits, so \<open>\u0041\<close> gives
  the code point \<open>0x0401\<close>; that is above \<open>0x7F\<close>, so two bytes are stored, \<open>0xD0\<close> and
  \<open>0x01\<close> (the second without the continuation mark \<open>0x80\<close>); and the second of them is
  stored through the advanced length pointer, as is the terminating byte after \<open>\n\<close>: both
  calls have no defined result.
\<close>

theorem json_h_parse_string_escapes:
  \<open>code_point (CHR ''0'') (CHR ''0'') (CHR ''4'') (CHR ''1'') = 0x0401
   \<and> encode 0x0401 = [CHR 0xD0, CHR 0x01]
   \<and> json_h_parse_string (replicate 7 None) 0 0 (CHR 0x5C # ''u0041"'') 0 False = Undefined
   \<and> json_h_parse_string (replicate 3 None) 0 0 (CHR 0x5C # ''n"'') 0 False = Undefined\<close>
proof -
  have \<open>code_point (CHR ''0'') (CHR ''0'') (CHR ''4'') (CHR ''1'') = 0x0401\<close>
    by (simp add: code_point_def hex_digit_def)
  moreover have \<open>encode 0x0401 = [CHR 0xD0, CHR 0x01]\<close>
    by code_simp
  moreover have
    \<open>json_h_parse_string (replicate 7 None) 0 0 (CHR 0x5C # ''u0041"'') 0 False = Undefined\<close>
    by (simp add: json_h_parse_string.simps escape_def escape_u_def isxdigit_def store_def
                  code_point_def hex_digit_def encode_def)
  moreover have
    \<open>json_h_parse_string (replicate 3 None) 0 0 (CHR 0x5C # ''n"'') 0 False = Undefined\<close>
    by (simp add: json_h_parse_string.simps escape_def escape_u_def isxdigit_def store_def)
  ultimately show ?thesis by blast
qed

text \<open>The length is left at 0 whatever is decoded; the empty string is the one case that
  returns.\<close>

lemma json_h_parse_string_empty:
  \<open>json_h_parse_string [None] 0 0 ''"'' 0 False = Returns (Success [Some (CHR 0x00)])\<close>
  by code_simp

subsection \<open>Trailing input\<close>

text \<open>
  C4. The claim describes the check \<open>json_h_parse\<close> makes after the value is built and
  gives \<open>"x" "y"\<close> as an input that fails although \<open>"x"\<close> alone is a complete document.
  In the source \<open>"x"\<close> alone fails with \<open>EINVAL\<close>: the string case compares the read
  cursor with the byte count \<open>m\<close> (\<open>ctx->r++ == m\<close>), and the two are equal exactly when
  the opening quote is the first byte of the buffer.
\<close>

theorem json_h_parse_string_document:
  \<open>json_h_parse ''"x"'' fresh_heap =
     Returns (''"x"'', \<lparr>live = {}, calls = 1, denied = {}\<rparr>, Failure EINVAL)\<close>
  by code_simp

text \<open>
  The check itself is as the claim describes it: once the value is built, one more call
  of the scanner decides; a further token or an error fails the parse, and only a clean
  end returns the root.
\<close>

lemma json_h_parse_trailing:
  assumes "malloc h = (ret, h0)" and "ret \<noteq> Null"
    and "json_h_parse_rec JSON_H_CONTEXT_INIT buf h0 ret = Returns (ctx, buf1, h1, Success v)"
    and "json_h_next ctx buf1 h1 = Returns (ctx', buf2, h2, t)"
  shows "(t = Finished \<longrightarrow> json_h_parse buf h = Returns (buf2, h2, Success (ret, v)))
       \<and> (t \<noteq> Finished \<longrightarrow> (\<forall>b' h' root. json_h_parse buf h \<noteq> Returns (b', h', Success root)))"
  using assms
  by (cases t) (auto simp: json_h_parse_def split: exec.splits)

lemma json_h_parse_trailing_examples:
  \<open>json_h_parse ''"x" "y"'' fresh_heap =
     Returns (''"x" "y"'', \<lparr>live = {}, calls = 1, denied = {}\<rparr>, Failure EINVAL)
   \<and> json_h_parse ''null null'' fresh_heap =
     Returns (''null null'', \<lparr>live = {}, calls = 1, denied = {}\<rparr>, Failure EINVAL)
   \<and> json_h_parse ''null '' fresh_heap =
     Returns (''null '', \<lparr>live = {0}, calls = 1, denied = {}\<rparr>,
              Success (Block 0, Tagged JSON_H_NULL))\<close>
  by code_simp

subsection \<open>Commas\<close>

text \<open>
  C6. The claim is that a comma is accepted only after a value or terminator. The case for
  \<open>,\<close> in the source tests \<open>object_state\<close> alone and never \<open>need_end\<close>, so a comma
  directly after \<open>[\<close> is accepted, and so is one before anything has been produced:
  \<open>[,]\<close> is parsed as an empty array and \<open>,null\<close> as \<open>null\<close>.
\<close>

theorem json_h_parse_leading_comma:
  \<open>json_h_parse ''[,]'' fresh_heap =
     Returns (''[,]'', \<lparr>live = {0, 1}, calls = 2, denied = {}\<rparr>,
       Success (Block 0, Aggregate JSON_H_ARRAY (Block 1) [Tagged JSON_H_ARRAY_END] 0))
   \<and> json_h_parse '',null'' fresh_heap =
     Returns ('',null'', \<lparr>live = {0}, calls = 1, denied = {}\<rparr>,
       Success (Block 0, Tagged JSON_H_NULL))\<close>
  by code_simp

text \<open>
  The case for \<open>,\<close> on its own, for any context: it is refused exactly when
  \<open>object_state\<close> is not 2, whatever \<open>need_end\<close> is; when it is accepted,
  \<open>object_state\<close> becomes 0 if the innermost open delimiter is \<open>{\<close>, and \<open>need_end\<close>
  is cleared.
\<close>

lemma switch_comma:
  assumes "ctx_s ctx = 0 \<or> ctx_s ctx - 1 < length buf"
  shows \<open>switch (CHR '','') ctx buf h =
     (if ctx_object_state ctx \<noteq> 2 then Returns (Return ctx buf h (Failed EINVAL))
      else Returns (Break (ctx\<lparr>ctx_object_state :=
                                 (if ctx_s ctx \<noteq> 0 \<and> buf ! (ctx_s ctx - 1) = CHR ''{'' then 0
                                  else ctx_object_state ctx),
                               ctx_need_end := 0\<rparr>)))\<close>
  using assms by (auto simp: switch_def einval_def)

subsection \<open>The empty string\<close>

text \<open>
  C7. The claim is that \<open>""\<close> is accepted wherever a string may stand. When the opening
  quote is the first byte of the buffer the scanner rejects it: the loop ends at once with
  \<open>ctx->r = 1\<close> and \<open>m = 1\<close>, and the test \<open>ctx->r++ == m\<close> jumps to \<open>einval\<close>,
  before the decoder is called.
\<close>

theorem json_h_next_empty_string_at_start:
  \<open>json_h_next JSON_H_CONTEXT_INIT ''""'' h =
     Returns (\<lparr>ctx_r = 2, ctx_s = 0, ctx_need_end = 0, ctx_object_state = 2\<rparr>, ''""'', h,
              Failed EINVAL)\<close>
  by (simp add: eval_simps)

text \<open>
  Anywhere else in the buffer the empty string is accepted where a string may stand, and
  the token is a string of length 0 whose block holds the terminating zero byte.
\<close>

lemma scan_string_quote:
  assumes "r < length buf" and \<open>buf ! r = CHR ''"''\<close>
  shows "scan_string buf r m False = (r, m)"
  using assms by (subst scan_string.simps) simp

lemma json_h_next_empty_string_elsewhere:
  assumes "0 < ctx_r ctx" and "ctx_r ctx + 1 < length buf"
    and \<open>buf ! ctx_r ctx = CHR ''"''\<close> and \<open>buf ! (ctx_r ctx + 1) = CHR ''"''\<close>
    and "ctx_need_end ctx = 0" and "ctx_object_state ctx \<noteq> 1"
    and "calls h \<notin> denied h"
  shows "json_h_next ctx buf h =
     Returns (ctx\<lparr>ctx_r := ctx_r ctx + 2, ctx_need_end := 1,
                  ctx_object_state := (if ctx_object_state ctx = 0 then 1 else ctx_object_state ctx)\<rparr>,
              buf, h\<lparr>live := insert (calls h) (live h), calls := calls h + 1\<rparr>,
              Produced (String (Block (calls h)) [Some (CHR 0x00)] 0))"
proof -
  have sc: "scan_string buf (ctx_r ctx + 1) 1 False = (ctx_r ctx + 1, 1)"
    using assms(2,4) by (rule scan_string_quote)
  have dec: "json_h_parse_string (replicate 1 None) 0 0 buf (ctx_r ctx + 1) False =
             Returns (Success [Some (CHR 0x00)])"
    using assms(2,4) by (subst json_h_parse_string.simps) (simp add: store_def)
  have "case_string (ctx\<lparr>ctx_r := ctx_r ctx + 1\<rparr>) buf h =
     Returns (Return (ctx\<lparr>ctx_r := ctx_r ctx + 2, ctx_need_end := 1,
                  ctx_object_state := (if ctx_object_state ctx = 0 then 1 else ctx_object_state ctx)\<rparr>)
              buf (h\<lparr>live := insert (calls h) (live h), calls := calls h + 1\<rparr>)
              (Produced (String (Block (calls h)) [Some (CHR 0x00)] 0)))"
    using assms(1,5,6,7) sc dec
    by (simp add: case_string_def Let_def malloc_def)
  then show ?thesis
    using assms(2,3) by (subst json_h_next.simps) (simp add: switch_def)
qed

subsection \<open>No marker in a finished tree\<close>

lemma case_string_token:
  assumes "case_string ctx buf h = Returns (Return ctx' buf' h' (Produced v))"
  shows "\<exists>p bytes n. v = String p bytes n"
  using assms
  by (auto simp: case_string_def einval_def Let_def
           split: prod.splits exec.splits result.splits if_splits)

lemma case_literal_token:
  assumes "case_literal rest x ctx buf h = Returns (Return ctx' buf' h' (Produced v))"
  shows "v = x"
  using assms by (auto simp: case_literal_def einval_def split: if_splits)

lemma switch_token:
  assumes "switch c ctx buf h = Returns (Return ctx' buf' h' (Produced v))"
  shows "nodes v = [v]"
  using assms
  by (auto simp: switch_def einval_def split: if_splits
           dest!: case_string_token case_literal_token)

lemma switch_token_end:
  assumes "switch c ctx buf h = Returns (Return ctx' buf' h' (Produced v))"
    and "ctx_s ctx = 0" and "ctx_object_state ctx = 2"
  shows "\<not> is_end v"
  using assms
  by (auto simp: switch_def einval_def is_end_def split: if_splits
           dest!: case_string_token case_literal_token)

lemma switch_break_first:
  assumes "switch c ctx buf h = Returns (Break ctx')"
    and "ctx_s ctx = 0" and "ctx_object_state ctx = 2"
  shows "ctx_s ctx' = 0 \<and> ctx_object_state ctx' = 2"
  using assms
  by (auto simp: switch_def einval_def split: if_splits
           dest: case_string_break case_literal_break)

lemma json_h_next_token:
  "json_h_next ctx buf h = Returns (ctx', buf', h', Produced v) \<Longrightarrow>
   nodes v = [v] \<and> (ctx_s ctx = 0 \<and> ctx_object_state ctx = 2 \<longrightarrow> \<not> is_end v)"
proof (induction ctx buf h rule: json_h_next.induct)
  case (1 ctx buf h)
  from "1.prems" have lt: "ctx_r ctx < length buf"
    by (subst (asm) json_h_next.simps) (auto split: if_splits)
  obtain sw where sw:
    "switch (buf ! ctx_r ctx) (ctx\<lparr>ctx_r := ctx_r ctx + 1\<rparr>) buf h = Returns sw"
    using "1.prems" lt
    by (subst (asm) json_h_next.simps) (auto split: exec.splits)
  show ?case
  proof (cases sw)
    case (Break c1)
    with sw lt "1.prems" have nx: "json_h_next c1 buf h = Returns (ctx', buf', h', Produced v)"
      by (subst (asm) json_h_next.simps) simp
    from switch_break_first[OF sw[unfolded Break]]
    have "ctx_s ctx = 0 \<and> ctx_object_state ctx = 2 \<longrightarrow> ctx_s c1 = 0 \<and> ctx_object_state c1 = 2"
      by simp
    with "1.IH"[OF lt sw Break nx] show ?thesis by blast
  next
    case (Return c1 b1 h1 t)
    with sw lt "1.prems" have t: "t = Produced v"
      by (subst (asm) json_h_next.simps) simp
    from switch_token[OF sw[unfolded Return t]] switch_token_end[OF sw[unfolded Return t]]
    show ?thesis by simp
  qed
qed

lemma finished_leaf: "nodes v = [v] \<Longrightarrow> finished v = (\<not> marker (type_of v))"
  by (simp add: finished_def)

lemma take_append_le: "k \<le> length xs \<Longrightarrow> take k (xs @ ys) = take k xs"
  by simp

lemma finished_aggregate:
  assumes "\<forall>e \<in> set elems. finished e" and "\<not> marker t"
    and "(if t = JSON_H_OBJECT then 2 * n else n) \<le> length elems"
  shows "finished (Aggregate t p (elems @ [child]) n)"
  using assms
  by (auto simp: finished_def dest!: in_set_takeD)

lemma build_finished:
  "json_h_parse_rec ctx buf h value = Returns (ctx', buf', h', Success v) \<Longrightarrow>
   finished v \<or> is_end v"
  "collect ctx buf h value t p elems n sz = Returns (ctx', buf', h', Success v) \<Longrightarrow>
   length elems = n \<Longrightarrow> \<forall>e \<in> set elems. finished e \<Longrightarrow>
   finished v \<and> \<not> is_end v"
proof (induction ctx buf h "value" and ctx buf h "value" t p elems n sz
       arbitrary: ctx' buf' h' v and ctx' buf' h' v rule: json_h_parse_rec_collect.induct)
  case (1 ctx buf h "value")
  from "1.prems" obtain c1 b1 h1 x where
    nx: "json_h_next ctx buf h = Returns (c1, b1, h1, Produced x)"
    by (subst (asm) json_h_parse_rec.simps)
       (simp split: exec.splits prod.splits token.splits)
  show ?case
  proof (cases "type_of x = JSON_H_OBJECT_START \<or> type_of x = JSON_H_ARRAY_START")
    case True
    with "1.prems" nx have
      "collect c1 b1 h1 value (type_of x) Null [] 0 0 = Returns (ctx', buf', h', Success v)"
      by (subst (asm) json_h_parse_rec.simps) simp
    from "1.IH"[OF nx refl refl refl refl True this] show ?thesis by simp
  next
    case False
    with "1.prems" nx have "v = x"
      by (subst (asm) json_h_parse_rec.simps) simp
    with json_h_next_token[OF nx] False show ?thesis
      by (auto simp: finished_leaf marker_def is_end_def)
  qed
next
  case (2 ctx buf h "value" t p elems n sz)
  from "2.prems"(1) obtain h1 b sz' where
    gr: "grow value t p elems n sz h = Returns (h1, Success (Block b, sz'))"
    by (subst (asm) collect.simps)
       (simp split: exec.splits prod.splits result.splits pointer.splits)
  from "2.prems"(1) gr obtain c2 b2 h2 child where
    ch: "json_h_parse_rec ctx buf h1 (Element b n) = Returns (c2, b2, h2, Success child)"
    by (subst (asm) collect.simps)
       (simp split: exec.splits prod.splits result.splits)
  note p1 = "2.IH"(1)[OF gr refl refl refl refl ch]
  show ?case
  proof (cases "type_of child = JSON_H_OBJECT_END")
    case True
    with "2.prems"(1) gr ch have
      v: "v = Aggregate JSON_H_OBJECT (Block b) (elems @ [child]) (n div 2)"
      by (subst (asm) collect.simps) simp
    show ?thesis
      unfolding v using "2.prems"(2,3)
      by (auto intro!: finished_aggregate simp: marker_def is_end_def)
  next
    case F1: False
    show ?thesis
    proof (cases "type_of child = JSON_H_ARRAY_END")
      case True
      with F1 "2.prems"(1) gr ch have
        v: "v = Aggregate JSON_H_ARRAY (Block b) (elems @ [child]) n"
        by (subst (asm) collect.simps) simp
      show ?thesis
        unfolding v using "2.prems"(2,3)
        by (auto intro!: finished_aggregate simp: marker_def is_end_def)
    next
      case F2: False
      with F1 "2.prems"(1) gr ch have
        "collect c2 b2 h2 value t (Block b) (elems @ [child]) (n + 1) sz' =
         Returns (ctx', buf', h', Success v)"
        by (subst (asm) collect.simps) simp
      moreover from p1 F1 F2 have "finished child" by (simp add: is_end_def)
      ultimately show ?thesis
        using "2.IH"(2)[OF gr refl refl refl refl ch refl refl refl refl F1 F2] "2.prems"(2,3)
        by simp
    qed
  qed
qed

lemma json_h_parse_rec_first:
  assumes "json_h_parse_rec ctx buf h value = Returns (ctx', buf', h', Success v)"
    and "ctx_s ctx = 0" and "ctx_object_state ctx = 2"
  shows "finished v"
proof -
  from assms(1) obtain c1 b1 h1 x where
    nx: "json_h_next ctx buf h = Returns (c1, b1, h1, Produced x)"
    by (subst (asm) json_h_parse_rec.simps)
       (simp split: exec.splits prod.splits token.splits)
  show ?thesis
  proof (cases "type_of x = JSON_H_OBJECT_START \<or> type_of x = JSON_H_ARRAY_START")
    case True
    with assms(1) nx have
      "collect c1 b1 h1 value (type_of x) Null [] 0 0 = Returns (ctx', buf', h', Success v)"
      by (subst (asm) json_h_parse_rec.simps) simp
    from build_finished(2)[OF this] show ?thesis by simp
  next
    case False
    with assms(1) nx have "v = x"
      by (subst (asm) json_h_parse_rec.simps) simp
    with json_h_next_token[OF nx] False assms(2,3) show ?thesis
      by (auto simp: finished_leaf marker_def is_end_def)
  qed
qed

text \<open>
  C8. Whenever \<open>json_h_parse\<close> returns a tree, every node of the tree has one of the
  types \<open>JSON_H_NULL\<close>, \<open>JSON_H_BOOLEAN\<close>, \<open>JSON_H_STRING\<close>, \<open>JSON_H_NUMBER\<close>,
  \<open>JSON_H_ARRAY\<close>, \<open>JSON_H_OBJECT\<close>; none has one of the four marker types.
\<close>

theorem json_h_parse_no_markers:
  assumes "json_h_parse buf h = Returns (buf', h', Success (ret, v))"
  shows "\<forall>x \<in> set (nodes v).
           type_of x \<in> {JSON_H_NULL, JSON_H_BOOLEAN, JSON_H_STRING, JSON_H_NUMBER,
                         JSON_H_ARRAY, JSON_H_OBJECT}"
proof -
  from assms obtain ctx b1 h1 h0 where
    "json_h_parse_rec JSON_H_CONTEXT_INIT buf h0 ret = Returns (ctx, b1, h1, Success v)"
    by (auto simp: json_h_parse_def split: prod.splits if_splits exec.splits result.splits token.splits)
  from json_h_parse_rec_first[OF this] have "finished v"
    by (simp add: JSON_H_CONTEXT_INIT_def)
  then show ?thesis
    by (auto simp: finished_def marker_def) (metis json_h_type.exhaust)
qed


theorem json_h_parse_no_markers_witness:
  \<open>json_h_parse ''[false,{"":null,}]'' fresh_heap =
     Returns (''[{alse,{"":null,}]'', \<lparr>live = {0, 1, 2, 3}, calls = 4, denied = {}\<rparr>,
       Success (Block 0,
         Aggregate JSON_H_ARRAY (Block 1)
           [Boolean 0,
            Aggregate JSON_H_OBJECT (Block 2)
              [String (Block 3) [Some (CHR 0x00)] 0, Tagged JSON_H_NULL, Tagged JSON_H_OBJECT_END] 1,
            Tagged JSON_H_ARRAY_END] 2))
   \<and> map type_of (nodes
         (Aggregate JSON_H_ARRAY (Block 1)
           [Boolean 0,
            Aggregate JSON_H_OBJECT (Block 2)
              [String (Block 3) [Some (CHR 0x00)] 0, Tagged JSON_H_NULL, Tagged JSON_H_OBJECT_END] 1,
            Tagged JSON_H_ARRAY_END] 2))
       = [JSON_H_ARRAY, JSON_H_BOOLEAN, JSON_H_OBJECT, JSON_H_STRING, JSON_H_NULL]
   \<and> type_of (Aggregate JSON_H_OBJECT (Block 2)
              [String (Block 3) [Some (CHR 0x00)] 0, Tagged JSON_H_NULL, Tagged JSON_H_OBJECT_END] 1)
       \<in> {JSON_H_NULL, JSON_H_BOOLEAN, JSON_H_STRING, JSON_H_NUMBER, JSON_H_ARRAY, JSON_H_OBJECT}
   \<and> type_of (Tagged JSON_H_NULL)
       \<in> {JSON_H_NULL, JSON_H_BOOLEAN, JSON_H_STRING, JSON_H_NUMBER, JSON_H_ARRAY, JSON_H_OBJECT}\<close>
proof -
  have e: \<open>json_h_parse ''[false,{"":null,}]'' fresh_heap =
     Returns (''[{alse,{"":null,}]'', \<lparr>live = {0, 1, 2, 3}, calls = 4, denied = {}\<rparr>,
       Success (Block 0,
         Aggregate JSON_H_ARRAY (Block 1)
           [Boolean 0,
            Aggregate JSON_H_OBJECT (Block 2)
              [String (Block 3) [Some (CHR 0x00)] 0, Tagged JSON_H_NULL, Tagged JSON_H_OBJECT_END] 1,
            Tagged JSON_H_ARRAY_END] 2))\<close>
    by code_simp
  have n: \<open>nodes
         (Aggregate JSON_H_ARRAY (Block 1)
           [Boolean 0,
            Aggregate JSON_H_OBJECT (Block 2)
              [String (Block 3) [Some (CHR 0x00)] 0, Tagged JSON_H_NULL, Tagged JSON_H_OBJECT_END] 1,
            Tagged JSON_H_ARRAY_END] 2)
     = [Aggregate JSON_H_ARRAY (Block 1)
           [Boolean 0,
            Aggregate JSON_H_OBJECT (Block 2)
              [String (Block 3) [Some (CHR 0x00)] 0, Tagged JSON_H_NULL, Tagged JSON_H_OBJECT_END] 1,
            Tagged JSON_H_ARRAY_END] 2,
        Boolean 0,
        Aggregate JSON_H_OBJECT (Block 2)
              [String (Block 3) [Some (CHR 0x00)] 0, Tagged JSON_H_NULL, Tagged JSON_H_OBJECT_END] 1,
        String (Block 3) [Some (CHR 0x00)] 0,
        Tagged JSON_H_NULL]\<close>
    by code_simp
  from json_h_parse_no_markers [OF e] n e show ?thesis by simp
qed

subsection \<open>The nesting cursor stays behind the read cursor\<close>

lemma switch_return_inv:
  assumes "switch c ctx buf h = Returns (Return ctx' buf' h' t)" and "ctx_s ctx < ctx_r ctx"
  shows "ctx_s ctx' \<le> ctx_r ctx' \<and> ctx_r ctx - 1 \<le> ctx_r ctx' \<and> length buf' = length buf
         \<and> (\<forall>i. ctx_r ctx' \<le> i \<longrightarrow> buf' ! i = buf ! i)"
  using assms
  by (auto simp: switch_def einval_def split: if_splits
           dest!: case_string_facts case_literal_facts)

lemma json_h_next_inv:
  "json_h_next ctx buf h = Returns (ctx', buf', h', t) \<Longrightarrow> ctx_s ctx \<le> ctx_r ctx \<Longrightarrow>
   ctx_s ctx' \<le> ctx_r ctx' \<and> ctx_r ctx \<le> ctx_r ctx' \<and> length buf' = length buf
   \<and> (\<forall>i. ctx_r ctx' \<le> i \<longrightarrow> buf' ! i = buf ! i)"
proof (induction ctx buf h rule: json_h_next.induct)
  case (1 ctx buf h)
  show ?case
  proof (cases "ctx_r ctx < length buf")
    case False
    with "1.prems" show ?thesis
      by (subst (asm) json_h_next.simps) (auto split: if_splits)
  next
    case lt: True
    obtain sw where sw:
      "switch (buf ! ctx_r ctx) (ctx\<lparr>ctx_r := ctx_r ctx + 1\<rparr>) buf h = Returns sw"
      using "1.prems"(1) lt
      by (subst (asm) json_h_next.simps) (auto split: exec.splits)
    show ?thesis
    proof (cases sw)
      case (Break c1)
      with sw lt "1.prems" have nx: "json_h_next c1 buf h = Returns (ctx', buf', h', t)"
        by (subst (asm) json_h_next.simps) simp
      from sw Break have c1: "ctx_r c1 = ctx_r ctx + 1" "ctx_s c1 = ctx_s ctx"
        using switch_break by fastforce+
      with "1.prems"(2) have "ctx_s c1 \<le> ctx_r c1" by simp
      from "1.IH"[OF lt sw Break nx this] c1 show ?thesis by simp
    next
      case (Return c1 b1 h1 t1)
      with sw lt "1.prems" have eq: "c1 = ctx'" "b1 = buf'"
        by (subst (asm) json_h_next.simps, simp)+
      from "1.prems"(2) have "ctx_s (ctx\<lparr>ctx_r := ctx_r ctx + 1\<rparr>) < ctx_r (ctx\<lparr>ctx_r := ctx_r ctx + 1\<rparr>)"
        by simp
      from switch_return_inv[OF sw[unfolded Return eq] this] show ?thesis by simp
    qed
  qed
qed

lemma json_h_next_calls_inv:
  "json_h_next_calls hs ctx buf = Returns (ctx', buf') \<Longrightarrow> ctx_s ctx \<le> ctx_r ctx \<Longrightarrow>
   ctx_s ctx' \<le> ctx_r ctx' \<and> ctx_r ctx \<le> ctx_r ctx' \<and> length buf' = length buf
   \<and> (\<forall>i. ctx_r ctx' \<le> i \<longrightarrow> buf' ! i = buf ! i)"
proof (induction hs arbitrary: ctx buf)
  case Nil
  then show ?case by simp
next
  case (Cons h hs)
  from Cons.prems(1) obtain c1 b1 h1 t1 where
    nx: "json_h_next ctx buf h = Returns (c1, b1, h1, t1)"
    and rest: "json_h_next_calls hs c1 b1 = Returns (ctx', buf')"
    by (auto split: exec.splits)
  from json_h_next_inv[OF nx Cons.prems(2)] have
    s1: "ctx_s c1 \<le> ctx_r c1" and r1: "ctx_r ctx \<le> ctx_r c1" and l1: "length b1 = length buf"
    and u1: "\<forall>i. ctx_r c1 \<le> i \<longrightarrow> b1 ! i = buf ! i"
    by simp_all
  from Cons.IH[OF rest s1] r1 l1 u1 show ?case by auto
qed

text \<open>
  C10. After any sequence of calls of \<open>json_h_next\<close> on a context that started as
  \<open>JSON_H_CONTEXT_INIT\<close>, the nesting cursor \<open>s\<close> is at most the read cursor \<open>r\<close>, and
  every byte of the buffer at or after the read cursor is as it was before the first
  call: the delimiter stack has only overwritten bytes that were already read.
\<close>

theorem json_h_next_cursors:
  assumes "json_h_next_calls hs JSON_H_CONTEXT_INIT buf = Returns (ctx, buf')"
  shows "ctx_s ctx \<le> ctx_r ctx \<and> length buf' = length buf
         \<and> (\<forall>i. ctx_r ctx \<le> i \<longrightarrow> buf' ! i = buf ! i)"
  using json_h_next_calls_inv[OF assms] by (simp add: JSON_H_CONTEXT_INIT_def)


theorem json_h_next_cursors_witness:
  \<open>json_h_next_calls [fresh_heap, fresh_heap, fresh_heap] JSON_H_CONTEXT_INIT '' [[1'' =
     Returns (\<lparr>ctx_r = 3, ctx_s = 2, ctx_need_end = 0, ctx_object_state = 2\<rparr>, ''[[[1'')
   \<and> ctx_s \<lparr>ctx_r = 3, ctx_s = 2, ctx_need_end = 0, ctx_object_state = 2\<rparr>
       \<le> ctx_r \<lparr>ctx_r = 3, ctx_s = 2, ctx_need_end = 0, ctx_object_state = 2\<rparr>
   \<and> length ''[[[1'' = length '' [[1''
   \<and> ''[[[1'' ! 3 = '' [[1'' ! 3\<close>
proof -
  have e: \<open>json_h_next_calls [fresh_heap, fresh_heap, fresh_heap] JSON_H_CONTEXT_INIT '' [[1'' =
     Returns (\<lparr>ctx_r = 3, ctx_s = 2, ctx_need_end = 0, ctx_object_state = 2\<rparr>, ''[[[1'')\<close>
    by code_simp
  from json_h_next_cursors [OF e] e show ?thesis by simp
qed

end
